theory Spec2Isabelle
  imports Main "HOL-Library.Monad_Syntax"
begin

section \<open>Strings\<close>

text \<open>
  The loader of \<^verbatim>\<open>src/ollama.ts\<close> works on JavaScript strings. They are modelled as
  \<^typ>\<open>string\<close>. Every character the code compares with is ASCII, and neither a UTF-16 code
  unit nor a UTF-8 byte of a character outside ASCII equals an ASCII character, so the
  choice of the unit does not change what the functions below find.
\<close>

definition startsWith :: "string \<Rightarrow> string \<Rightarrow> bool" where
  \<comment> \<open>\<^verbatim>\<open>s.startsWith(p)\<close>\<close>
  "startsWith s p = (take (length p) s = p)"

definition endsWith :: "string \<Rightarrow> string \<Rightarrow> bool" where
  \<comment> \<open>\<^verbatim>\<open>s.endsWith(p)\<close>\<close>
  "endsWith s p = (length p \<le> length s \<and> drop (length s - length p) s = p)"

fun includes_str :: "string \<Rightarrow> string \<Rightarrow> bool" where
  \<comment> \<open>\<^verbatim>\<open>s.includes(p)\<close>: \<open>p\<close> occurs at some position of \<open>s\<close>\<close>
  "includes_str [] p = (p = [])"
| "includes_str (c # cs) p = (startsWith (c # cs) p \<or> includes_str cs p)"

fun split_on :: "char \<Rightarrow> string \<Rightarrow> string list" where
  \<comment> \<open>\<^verbatim>\<open>s.split(sep)\<close> for a separator of one character: every occurrence splits\<close>
  "split_on sep [] = [[]]"
| "split_on sep (c # cs) =
     (if c = sep then [] # split_on sep cs
      else (case split_on sep cs of
              [] \<Rightarrow> [[c]]
            | p # ps \<Rightarrow> (c # p) # ps))"

section \<open>The Link Rewriter\<close>

text \<open>
  \<^verbatim>\<open>const linkRegex = /\[([^\]]+)\]\(([^)]+)\)/g\<close>

  One attempt of the expression at the head of a string. The first group is greedy and
  takes characters other than \<^verbatim>\<open>]\<close>, and the expression goes on with \<^verbatim>\<open>]\<close>: backtracking to a
  shorter group leaves a character other than \<^verbatim>\<open>]\<close> next, so only the longest run can
  succeed. The same holds for the second group and \<^verbatim>\<open>)\<close>. The result is the two groups and
  what follows the match.
\<close>

definition exec_linkRegex :: "string \<Rightarrow> (string \<times> string \<times> string) option" where
  "exec_linkRegex s =
     (case s of
        [] \<Rightarrow> None
      | c # cs \<Rightarrow>
          if c \<noteq> CHR ''['' then None
          else let text = takeWhile (\<lambda>x. x \<noteq> CHR '']'') cs;
                   r1 = dropWhile (\<lambda>x. x \<noteq> CHR '']'') cs
               in if text = [] then None
                  else (case r1 of
                          c1 # c2 # r2 \<Rightarrow>
                            if c1 = CHR '']'' \<and> c2 = CHR ''(''
                            then let url = takeWhile (\<lambda>x. x \<noteq> CHR '')'') r2;
                                     r3 = dropWhile (\<lambda>x. x \<noteq> CHR '')'') r2
                                 in if url = [] then None
                                    else (case r3 of
                                            [] \<Rightarrow> None
                                          | c3 # rest \<Rightarrow> Some (text, url, rest))
                            else None
                        | _ \<Rightarrow> None))"

definition matched :: "string \<Rightarrow> string \<Rightarrow> string" where
  \<comment> \<open>the substring a match covers, the callback's first argument\<close>
  "matched text url = ''['' @ text @ '']('' @ url @ '')''"

definition cleanPath :: "string \<Rightarrow> string" where
  \<comment> \<open>the two \<^verbatim>\<open>if\<close> statements on \<^verbatim>\<open>cleanPath\<close>, one after the other\<close>
  "cleanPath path =
     (let p1 = (if startsWith path ''./'' then drop 2 path else path)
      in if startsWith p1 ''../'' then drop 3 p1 else p1)"

definition newUrl :: "string \<Rightarrow> string" where
  \<comment> \<open>\<^verbatim>\<open>const [path, fragment] = url.split('#')\<close>: the first two pieces, the second one
      undefined when there is no \<^verbatim>\<open>#\<close>; undefined and the empty string are falsy\<close>
  "newUrl url =
     (let parts = split_on CHR ''#'' url;
          path = hd parts;
          fragment = (case tl parts of [] \<Rightarrow> None | f # _ \<Rightarrow> Some f)
      in ''/docs/'' @ cleanPath path @
         (case fragment of
            None \<Rightarrow> []
          | Some f \<Rightarrow> if f \<noteq> [] then ''#'' @ f else []))"

definition replacer :: "string \<Rightarrow> string \<Rightarrow> string \<Rightarrow> string" where
  \<comment> \<open>the callback given to \<^verbatim>\<open>replace\<close>\<close>
  "replacer match text url =
     (if startsWith url ''./'' \<or> startsWith url ''../''
      then ''['' @ text @ '']('' @ newUrl url @ '')''
      else match)"

lemma exec_linkRegex_shorter:
  "exec_linkRegex s = Some (text, url, rest) \<Longrightarrow> length rest < length s"
proof -
  assume a: "exec_linkRegex s = Some (text, url, rest)"
  have d: "length (dropWhile P xs) \<le> length xs" for P and xs :: string
    by (induction xs) auto
  from a obtain c cs where s: "s = c # cs"
    by (cases s) (auto simp: exec_linkRegex_def)
  from a s obtain c1 c2 r2 where
    r1: "dropWhile (\<lambda>x. x \<noteq> CHR '']'') cs = c1 # c2 # r2"
    by (auto simp: exec_linkRegex_def Let_def split: if_splits list.splits)
  from a s r1 obtain c3 where
    r3: "dropWhile (\<lambda>x. x \<noteq> CHR '')'') r2 = c3 # rest"
    by (auto simp: exec_linkRegex_def Let_def split: if_splits list.splits)
  have "length (c3 # rest) \<le> length r2"
    using d [of "\<lambda>x. x \<noteq> CHR '')''" r2] by (simp only: r3)
  moreover have "length (c1 # c2 # r2) \<le> length cs"
    using d [of "\<lambda>x. x \<noteq> CHR '']''" cs] by (simp only: r1)
  ultimately show ?thesis using s by simp
qed

text \<open>
  \<^verbatim>\<open>markdownContent.replace(linkRegex, callback)\<close> with a global expression: the string is
  scanned from the left; where the expression matches, the callback's result is emitted
  and the scan goes on after the match; elsewhere the character is copied.
\<close>

function transformMarkdownLinks :: "string \<Rightarrow> string" where
  "transformMarkdownLinks [] = []"
| "transformMarkdownLinks (c # cs) =
     (case exec_linkRegex (c # cs) of
        None \<Rightarrow> c # transformMarkdownLinks cs
      | Some (text, url, rest) \<Rightarrow>
          replacer (matched text url) text url @ transformMarkdownLinks rest)"
  by pat_completeness auto
termination
  by (relation "measure length") (auto dest: exec_linkRegex_shorter)

text \<open>
  The inline links of a string: the matches \<^verbatim>\<open>replace\<close> hands to the callback, in
  order, each with its two groups (what \<^verbatim>\<open>matchAll(linkRegex)\<close> lists).
\<close>

function links :: "string \<Rightarrow> (string \<times> string) list" where
  "links [] = []"
| "links (c # cs) =
     (case exec_linkRegex (c # cs) of
        None \<Rightarrow> links cs
      | Some (text, url, rest) \<Rightarrow> (text, url) # links rest)"
  by pat_completeness auto
termination
  by (relation "measure length") (auto dest: exec_linkRegex_shorter)

section \<open>Data model\<close>

text \<open>
  JSON values, as the values of the fields of a metadata object. \<^verbatim>\<open>undefined\<close> is
  \<^const>\<open>None\<close> of an option type throughout.
\<close>

datatype jvalue =
    JNull
  | JBool bool
  | JNum int
  | JStr string
  | JArr "jvalue list"
  | JObj "(string \<times> jvalue) list"

type_synonym obj = "string \<rightharpoonup> jvalue"

text \<open>
  One element of the directory listing, read through the two fields the loader reads,
  \<^verbatim>\<open>entry.url\<close> and \<^verbatim>\<open>entry.download_url\<close>. The loader declares both as strings; the
  provider sends \<^verbatim>\<open>null\<close> as the download address of a directory. \<^const>\<open>None\<close> is a field
  that is absent or \<^verbatim>\<open>null\<close>. The fields carry a prefix, the stored record below has
  fields of the same names.
\<close>

record descriptor =
  d_url :: "string option"
  d_download_url :: "string option"

text \<open>\<^verbatim>\<open>{ selfUrl, downloadUrl }\<close>: before the filter a field may still be undefined.\<close>

record discovered =
  selfUrl :: "string option"
  downloadUrl :: "string option"

text \<open>
  \<^verbatim>\<open>z.infer<typeof docsSchema>\<close>, the record the store holds. \<^verbatim>\<open>size\<close>, \<^verbatim>\<open>type\<close> and
  \<^verbatim>\<open>_links\<close> are not names a field can have here, so every field carries the prefix.
\<close>

record doc_links =
  links_self :: string
  links_git :: string
  links_html :: string

record doc =
  doc_name :: string
  doc_path :: string
  doc_sha :: string
  doc_size :: int
  doc_url :: string
  doc_html_url :: string
  doc_git_url :: string
  doc_download_url :: string
  doc_type :: string
  doc_content :: string
  doc_encoding :: string
  doc_links :: doc_links

datatype error =
    Error string      \<comment> \<open>\<^verbatim>\<open>throw new Error(message)\<close> of the loader\<close>
  | TypeError         \<comment> \<open>\<^verbatim>\<open>new URL\<close> outside a \<^verbatim>\<open>try\<close>; \<^verbatim>\<open>fetch\<close> or the reading of a body rejecting\<close>
  | SyntaxError       \<comment> \<open>\<^verbatim>\<open>res.json()\<close> on a body that is not JSON\<close>
  | ParseDataError string  \<comment> \<open>raised by \<^verbatim>\<open>context.parseData\<close>\<close>

text \<open>
  What a call site reads from a \<^verbatim>\<open>Response\<close>: \<^verbatim>\<open>res.ok\<close>, \<^verbatim>\<open>res.json()\<close> and
  \<^verbatim>\<open>res.text()\<close>, the last two \<^const>\<open>None\<close> when the promise rejects. The type of the JSON
  is the one the call site expects: the listing is an array of descriptors or any other
  value; a metadata response is an object, or a falsy value (\<^const>\<open>None\<close>).
\<close>

datatype listing_json = NotArray jvalue | Listing "descriptor list"

record 'j response =
  res_ok :: bool
  res_json :: "'j option"
  res_text :: "string option"

record options =
  repo :: string
  path :: string

text \<open>
  The world outside the loader. \<^verbatim>\<open>new URL(s)\<close> gives the serialised address, or
  \<^const>\<open>None\<close> where the constructor throws. \<^verbatim>\<open>fetch\<close> gives a response, or \<^const>\<open>None\<close> where it
  rejects; the listing request is the one with headers. Within a run an address is
  answered the same way each time it is requested.
\<close>

record env =
  parse_url :: "string \<Rightarrow> string option"
  fetch_listing :: "string \<Rightarrow> (string \<times> string) list \<Rightarrow> listing_json response option"
  fetch :: "string \<Rightarrow> obj option response option"

type_synonym parser = "jvalue option \<Rightarrow> obj \<Rightarrow> error + doc"

text \<open>
  The state a run changes: the content store (\<^verbatim>\<open>context.store\<close>, a map from ids to
  records, \<^verbatim>\<open>set\<close> overwrites) and the requests issued so far. \<^verbatim>\<open>console.log\<close> lines are
  left out.
\<close>

record state =
  store :: "string \<rightharpoonup> doc"
  requests :: "string list"

section \<open>Entry Discovery\<close>

definition truthy :: "string option \<Rightarrow> bool" where
  \<comment> \<open>of a value that is a string, \<^verbatim>\<open>null\<close> or undefined: only a non-empty string\<close>
  "truthy v = (case v of None \<Rightarrow> False | Some s \<Rightarrow> s \<noteq> [])"

definition to_entry :: "descriptor \<Rightarrow> discovered" where
  "to_entry entry = \<lparr>selfUrl = d_url entry, downloadUrl = d_download_url entry\<rparr>"

definition keep :: "discovered \<Rightarrow> bool" where
  \<comment> \<open>the predicate given to \<^verbatim>\<open>filter\<close>; \<^verbatim>\<open>&&\<close> reaches \<^verbatim>\<open>endsWith\<close> only on a truthy value\<close>
  "keep entry =
     (truthy (selfUrl entry) \<and>
      (case downloadUrl entry of
         None \<Rightarrow> False
       | Some d \<Rightarrow> d \<noteq> [] \<and> endsWith d ''.md'' \<and> \<not> includes_str d ''README.md''))"

definition discover :: "descriptor list \<Rightarrow> discovered list" where
  "discover json = filter keep (map to_entry json)"

definition listing_url :: "options \<Rightarrow> string" where
  "listing_url options =
     ''https://api.github.com/repos/'' @ repo options @ ''/contents/'' @ path options"

definition listing_headers :: "(string \<times> string) list" where
  "listing_headers =
     [(''Accept'', ''application/vnd.github.v3+json''), (''User-Agent'', ''astro'')]"

definition request :: "string \<Rightarrow> state \<Rightarrow> state" where
  "request u st = st\<lparr>requests := requests st @ [u]\<rparr>"

definition fetchDocsEntries ::
  "env \<Rightarrow> options \<Rightarrow> state \<Rightarrow> (error + discovered list) \<times> state" where
  "fetchDocsEntries env options st =
     (case parse_url env (listing_url options) of
        None \<Rightarrow> (Inl TypeError, st)
      | Some u \<Rightarrow>
          let st1 = request u st in
          (case fetch_listing env u listing_headers of
             None \<Rightarrow> (Inl TypeError, st1)
           | Some res \<Rightarrow>
               if \<not> res_ok res
               then (Inl (Error (''Failed to fetch '' @ repo options @ path options @
                                 '' from GitHub'')), st1)
               else (case res_json res of
                       None \<Rightarrow> (Inl SyntaxError, st1)
                     | Some (NotArray v) \<Rightarrow>
                         (Inl (Error ''Failed to fetch docs from GitHub''), st1)
                     | Some (Listing json) \<Rightarrow> (Inr (discover json), st1))))"

section \<open>Entry Fetcher\<close>

definition new_URL :: "env \<Rightarrow> string option \<Rightarrow> string option" where
  \<comment> \<open>\<^verbatim>\<open>new URL(x)\<close> inside the \<^verbatim>\<open>try\<close>; undefined reads as the text \<^verbatim>\<open>undefined\<close>,
      which is no address\<close>
  "new_URL env x = (case x of None \<Rightarrow> None | Some s \<Rightarrow> parse_url env s)"

definition candidate :: "obj \<Rightarrow> string \<Rightarrow> obj" where
  \<comment> \<open>\<^verbatim>\<open>{ ...metadata, content: transformMarkdownLinks(text) }\<close>\<close>
  "candidate metadata text = metadata(''content'' \<mapsto> JStr (transformMarkdownLinks text))"

definition parseEntry ::
  "env \<Rightarrow> discovered \<Rightarrow> parser \<Rightarrow> state \<Rightarrow> (error + doc option) \<times> state" where
  "parseEntry env entry parser st =
     (case new_URL env (selfUrl entry) of
        None \<Rightarrow> (Inr None, st)
      | Some selfU \<Rightarrow>
     (case new_URL env (downloadUrl entry) of
        None \<Rightarrow> (Inr None, st)
      | Some downloadU \<Rightarrow>
          let st1 = request selfU st in
     (case fetch env selfU of
        None \<Rightarrow> (Inl TypeError, st1)
      | Some metadataRes \<Rightarrow>
          if \<not> res_ok metadataRes then (Inl (Error (''Failed to fetch '' @ selfU)), st1)
          else
     (case res_json metadataRes of
        None \<Rightarrow> (Inl SyntaxError, st1)
      | Some None \<Rightarrow> (Inl (Error (''Failed to fetch '' @ selfU)), st1)
      | Some (Some metadata) \<Rightarrow>
          let st2 = request downloadU st1 in
     (case fetch env downloadU of
        None \<Rightarrow> (Inl TypeError, st2)
      | Some res \<Rightarrow>
          if \<not> res_ok res then (Inl (Error (''Failed to fetch '' @ downloadU)), st2)
          else
     (case res_text res of
        None \<Rightarrow> (Inl TypeError, st2)
      | Some text \<Rightarrow>
          if text = [] then (Inl (Error (''Failed to fetch '' @ downloadU)), st2)
          else
     (case parser (metadata ''url'') (candidate metadata text) of
        Inl e \<Rightarrow> (Inl e, st2)
      | Inr data \<Rightarrow> (Inr (Some data), st2))))))))"

section \<open>Sync Orchestrator\<close>

definition entry_task ::
  "env \<Rightarrow> parser \<Rightarrow> discovered \<Rightarrow> state \<Rightarrow> (error + unit) \<times> state" where
  \<comment> \<open>the callback mapped over the entries: \<^verbatim>\<open>store.set\<close> when \<^verbatim>\<open>data\<close> is not null\<close>
  "entry_task env parser entry st =
     (case parseEntry env entry parser st of
        (Inl e, st') \<Rightarrow> (Inl e, st')
      | (Inr None, st') \<Rightarrow> (Inr (), st')
      | (Inr (Some data), st') \<Rightarrow>
          (Inr (), st'\<lparr>store := (store st')(doc_url data \<mapsto> data)\<rparr>))"

text \<open>
  \<^verbatim>\<open>Promise.all(entries.map(...))\<close>. Every task runs, whatever becomes of the others, and
  the promise rejects with the first rejection. The tasks are taken one after the other,
  in the order of the list, which stands for the order in which they complete; between
  the tasks, only the order of the writes to the store can matter, and the theorems below
  hold for every list.
\<close>

fun run_entries ::
  "env \<Rightarrow> parser \<Rightarrow> discovered list \<Rightarrow> state \<Rightarrow> (error + unit) \<times> state" where
  "run_entries env parser [] st = (Inr (), st)"
| "run_entries env parser (entry # entries) st =
     (let (r, st1) = entry_task env parser entry st;
          (rs, st2) = run_entries env parser entries st1
      in (case r of Inl e \<Rightarrow> Inl e | Inr _ \<Rightarrow> rs, st2))"

definition load :: "env \<Rightarrow> parser \<Rightarrow> options \<Rightarrow> state \<Rightarrow> (error + unit) \<times> state" where
  "load env parser options st =
     (case fetchDocsEntries env options st of
        (Inl e, st') \<Rightarrow> (Inl e, st')
      | (Inr entries, st') \<Rightarrow> run_entries env parser entries st')"

section \<open>The schema\<close>

text \<open>
  \<^verbatim>\<open>docsSchema\<close>: every field present with its kind. The keys of an object value are
  taken to be distinct.
\<close>

definition str_field :: "obj \<Rightarrow> string \<Rightarrow> string option" where
  "str_field m k = (case m k of Some (JStr s) \<Rightarrow> Some s | _ \<Rightarrow> None)"

definition num_field :: "obj \<Rightarrow> string \<Rightarrow> int option" where
  "num_field m k = (case m k of Some (JNum n) \<Rightarrow> Some n | _ \<Rightarrow> None)"

definition links_field :: "obj \<Rightarrow> doc_links option" where
  "links_field m =
     (case m ''_links'' of
        Some (JObj kvs) \<Rightarrow>
          do {
            self \<leftarrow> str_field (map_of kvs) ''self'';
            git \<leftarrow> str_field (map_of kvs) ''git'';
            html \<leftarrow> str_field (map_of kvs) ''html'';
            Some \<lparr>links_self = self, links_git = git, links_html = html\<rparr>
          }
      | _ \<Rightarrow> None)"

definition docsSchema :: "obj \<Rightarrow> doc option" where
  "docsSchema m =
     do {
       name \<leftarrow> str_field m ''name'';
       path \<leftarrow> str_field m ''path'';
       sha \<leftarrow> str_field m ''sha'';
       size \<leftarrow> num_field m ''size'';
       url \<leftarrow> str_field m ''url'';
       html_url \<leftarrow> str_field m ''html_url'';
       git_url \<leftarrow> str_field m ''git_url'';
       download_url \<leftarrow> str_field m ''download_url'';
       type \<leftarrow> str_field m ''type'';
       content \<leftarrow> str_field m ''content'';
       encoding \<leftarrow> str_field m ''encoding'';
       links \<leftarrow> links_field m;
       Some \<lparr>doc_name = name, doc_path = path, doc_sha = sha, doc_size = size,
             doc_url = url, doc_html_url = html_url, doc_git_url = git_url,
             doc_download_url = download_url, doc_type = type, doc_content = content,
             doc_encoding = encoding, doc_links = links\<rparr>
     }"

definition schema_parser :: parser where
  \<comment> \<open>\<^verbatim>\<open>context.parseData\<close> as the host provides it for a loader with this schema\<close>
  "schema_parser ident data =
     (case docsSchema data of
        None \<Rightarrow> Inl (ParseDataError ''invalid data'')
      | Some d \<Rightarrow> Inr d)"

section \<open>Example data\<close>

text \<open>
  A small world for the examples: a listing of five descriptors (a document, the README,
  a directory, an image, and an element without a metadata address), one document served
  under two metadata addresses, and a parser of addresses that accepts what starts with
  \<^verbatim>\<open>https://\<close>.
\<close>

definition demo_options :: options where
  "demo_options = \<lparr>repo = ''ollama/ollama'', path = ''docs''\<rparr>"

definition demo_listing :: "descriptor list" where
  "demo_listing =
     [\<lparr>d_url = Some ''https://api.example/docs/api.md'',
       d_download_url = Some ''https://raw.example/docs/api.md''\<rparr>,
      \<lparr>d_url = Some ''https://api.example/docs/README.md'',
       d_download_url = Some ''https://raw.example/docs/README.md''\<rparr>,
      \<lparr>d_url = Some ''https://api.example/docs/images'',
       d_download_url = None\<rparr>,
      \<lparr>d_url = Some ''https://api.example/docs/logo.png'',
       d_download_url = Some ''https://raw.example/docs/logo.png''\<rparr>,
      \<lparr>d_url = None,
       d_download_url = Some ''https://raw.example/docs/faq.md''\<rparr>]"

definition demo_metadata :: "string \<Rightarrow> obj" where
  "demo_metadata sha =
     map_of
       [(''name'', JStr ''api.md''),
        (''path'', JStr ''docs/api.md''),
        (''sha'', JStr sha),
        (''size'', JNum 28),
        (''url'', JStr ''https://api.example/docs/api.md''),
        (''html_url'', JStr ''https://example/docs/api.md''),
        (''git_url'', JStr ''https://api.example/git/blobs/1''),
        (''download_url'', JStr ''https://raw.example/docs/api.md''),
        (''type'', JStr ''file''),
        (''content'', JStr ''U2VlIHRoZSBbRkFRXSguL2ZhcS5tZCN0b3ApLg==''),
        (''encoding'', JStr ''base64''),
        (''_links'', JObj [(''self'', JStr ''https://api.example/docs/api.md''),
                          (''git'', JStr ''https://api.example/git/blobs/1''),
                          (''html'', JStr ''https://example/docs/api.md'')])]"

definition demo_doc :: "string \<Rightarrow> doc" where
  "demo_doc sha =
     \<lparr>doc_name = ''api.md'', doc_path = ''docs/api.md'', doc_sha = sha, doc_size = 28,
      doc_url = ''https://api.example/docs/api.md'',
      doc_html_url = ''https://example/docs/api.md'',
      doc_git_url = ''https://api.example/git/blobs/1'',
      doc_download_url = ''https://raw.example/docs/api.md'',
      doc_type = ''file'',
      doc_content = ''See the [FAQ](/docs/faq.md#top).'',
      doc_encoding = ''base64'',
      doc_links = \<lparr>links_self = ''https://api.example/docs/api.md'',
                   links_git = ''https://api.example/git/blobs/1'',
                   links_html = ''https://example/docs/api.md''\<rparr>\<rparr>"

definition demo_env :: env where
  "demo_env =
     \<lparr>parse_url = (\<lambda>s. if startsWith s ''https://'' then Some s else None),
      fetch_listing = (\<lambda>u headers.
        Some \<lparr>res_ok = True, res_json = Some (Listing demo_listing), res_text = None\<rparr>),
      fetch = (\<lambda>u.
        if u = ''https://api.example/docs/api.md''
        then Some \<lparr>res_ok = True, res_json = Some (Some (demo_metadata ''sha1'')),
                   res_text = None\<rparr>
        else if u = ''https://api.example/docs/api.md?ref=main''
        then Some \<lparr>res_ok = True, res_json = Some (Some (demo_metadata ''sha2'')),
                   res_text = None\<rparr>
        else if u = ''https://raw.example/docs/api.md''
        then Some \<lparr>res_ok = True, res_json = None,
                   res_text = Some ''See the [FAQ](./faq.md#top).''\<rparr>
        else None)\<rparr>"

definition demo_env_not_found :: env where
  "demo_env_not_found =
     demo_env\<lparr>fetch_listing := (\<lambda>u headers.
        Some \<lparr>res_ok = True,
              res_json = Some (NotArray (JObj [(''message'', JStr ''Not Found'')])),
              res_text = None\<rparr>)\<rparr>"

definition demo_state :: state where
  "demo_state = \<lparr>store = Map.empty, requests = []\<rparr>"

definition demo_entry :: "string \<Rightarrow> discovered" where
  "demo_entry u = \<lparr>selfUrl = Some u, downloadUrl = Some ''https://raw.example/docs/api.md''\<rparr>"

section \<open>Lemmas on the Link Rewriter\<close>

lemma split_on_none: "c \<notin> set p \<Longrightarrow> split_on c p = [p]"
  by (induction p) auto

lemma split_on_first: "c \<notin> set p \<Longrightarrow> split_on c (p @ c # f) = p # split_on c f"
  by (induction p) auto

lemma takeWhile_upto: "c \<notin> set xs \<Longrightarrow> takeWhile (\<lambda>x. x \<noteq> c) (xs @ c # ys) = xs"
  by (induction xs) auto

lemma dropWhile_upto: "c \<notin> set xs \<Longrightarrow> dropWhile (\<lambda>x. x \<noteq> c) (xs @ c # ys) = c # ys"
  by (induction xs) auto

lemma exec_link:
  assumes "t \<noteq> []" "CHR '']'' \<notin> set t" "u \<noteq> []" "CHR '')'' \<notin> set u"
  shows "exec_linkRegex (CHR ''['' # t @ '']('' @ u @ '')'' @ rest) = Some (t, u, rest)"
  using assms by (simp add: exec_linkRegex_def takeWhile_upto dropWhile_upto)

lemma transform_link:
  assumes "t \<noteq> []" "CHR '']'' \<notin> set t" "u \<noteq> []" "CHR '')'' \<notin> set u"
  shows "transformMarkdownLinks (CHR ''['' # t @ '']('' @ u @ '')'' @ rest) =
         replacer (matched t u) t u @ transformMarkdownLinks rest"
  using exec_link [OF assms] by simp


lemma newUrl_nofrag: "CHR ''#'' \<notin> set p \<Longrightarrow> newUrl p = ''/docs/'' @ cleanPath p"
  by (simp add: newUrl_def split_on_none)

lemma newUrl_frag: "CHR ''#'' \<notin> set p \<Longrightarrow> CHR ''#'' \<notin> set f \<Longrightarrow>
   newUrl (p @ ''#'' @ f) = ''/docs/'' @ cleanPath p @ (if f \<noteq> [] then ''#'' @ f else [])"
  by (simp add: newUrl_def split_on_first split_on_none)

lemma startsWith_dot: "startsWith s ''./'' = (take 2 s = ''./'')"
  by (simp add: startsWith_def numeral_2_eq_2)

lemma startsWith_dotdot: "startsWith s ''../'' = (take 3 s = ''../'')"
  by (simp add: startsWith_def numeral_3_eq_3)

lemma startsWith_append: "startsWith p q \<Longrightarrow> startsWith (p @ r) q"
  unfolding startsWith_def
proof -
  assume a: "take (length q) p = q"
  have "length (take (length q) p) = length q" by (simp only: a)
  then have "length q \<le> length p" by simp
  then show "take (length q) (p @ r) = q" using a by simp
qed

lemma exec_linkRegex_Some:
  assumes "exec_linkRegex s = Some (t, u, rest)"
  shows "s = matched t u @ rest"
proof -
  from assms obtain c cs where s: "s = c # cs" and c: "c = CHR ''[''"
    by (cases s) (auto simp: exec_linkRegex_def split: if_splits)
  from assms s obtain c1 c2 r2 where
    r1: "dropWhile (\<lambda>x. x \<noteq> CHR '']'') cs = c1 # c2 # r2" and c12: "c1 = CHR '']''" "c2 = CHR ''(''"
    and t: "t = takeWhile (\<lambda>x. x \<noteq> CHR '']'') cs"
    by (auto simp: exec_linkRegex_def Let_def split: if_splits list.splits)
  from assms s r1 obtain c3 where
    r3: "dropWhile (\<lambda>x. x \<noteq> CHR '')'') r2 = c3 # rest" and u: "u = takeWhile (\<lambda>x. x \<noteq> CHR '')'') r2"
    by (auto simp: exec_linkRegex_def Let_def split: if_splits list.splits)
  have c3: "c3 = CHR '')''"
    using hd_dropWhile [of "\<lambda>x. x \<noteq> CHR '')''" r2] r3 by simp
  have "cs = t @ c1 # c2 # r2"
    using takeWhile_dropWhile_id [of "\<lambda>x. x \<noteq> CHR '']''" cs] by (simp only: r1 t)
  moreover have "r2 = u @ c3 # rest"
    using takeWhile_dropWhile_id [of "\<lambda>x. x \<noteq> CHR '')''" r2] by (simp only: r3 u)
  ultimately show ?thesis
    by (simp add: s c c12 c3 matched_def)
qed

lemma transform_untouched:
  "\<forall>(t, u) \<in> set (links s). \<not> (startsWith u ''./'' \<or> startsWith u ''../'') \<Longrightarrow>
   transformMarkdownLinks s = s"
proof (induction s rule: transformMarkdownLinks.induct)
  case 1
  show ?case by simp
next
  case (2 c cs)
  show ?case
  proof (cases "exec_linkRegex (c # cs)")
    case None
    with 2 show ?thesis by simp
  next
    case (Some m)
    obtain t u rest where m: "m = (t, u, rest)" by (cases m)
    from Some m have eq: "c # cs = matched t u @ rest" by (simp add: exec_linkRegex_Some)
    from 2(3) Some m have nrel: "\<not> (startsWith u ''./'' \<or> startsWith u ''../'')"
      and rest: "\<forall>(t, u) \<in> set (links rest). \<not> (startsWith u ''./'' \<or> startsWith u ''../'')"
      by simp_all
    have "transformMarkdownLinks rest = rest"
      using 2(2) [OF Some m [symmetric] refl rest] .
    then have "transformMarkdownLinks (c # cs) = matched t u @ rest"
      using Some m nrel by (simp add: replacer_def)
    with eq show ?thesis by simp
  qed
qed


section \<open>Lemmas on the pipeline\<close>

lemma startsWith_iff: "startsWith s p \<longleftrightarrow> (\<exists>b. s = p @ b)"
proof
  assume "startsWith s p"
  then have "s = p @ drop (length p) s"
    unfolding startsWith_def using append_take_drop_id [of "length p" s] by simp
  then show "\<exists>b. s = p @ b" ..
next
  assume "\<exists>b. s = p @ b"
  then show "startsWith s p" by (auto simp: startsWith_def)
qed

lemma endsWith_iff: "endsWith s p \<longleftrightarrow> (\<exists>q. s = q @ p)"
proof
  assume "endsWith s p"
  then have "s = take (length s - length p) s @ p"
    unfolding endsWith_def using append_take_drop_id [of "length s - length p" s] by simp
  then show "\<exists>q. s = q @ p" ..
next
  assume "\<exists>q. s = q @ p"
  then show "endsWith s p" by (auto simp: endsWith_def)
qed

lemma includes_str_append: "includes_str (a @ p @ b) p"
proof (induction a)
  case Nil
  show ?case
  proof (cases "p @ b")
    case Nil
    then show ?thesis by simp
  next
    case (Cons c cs)
    have "startsWith (p @ b) p" by (simp add: startsWith_def)
    then show ?thesis using Cons by simp
  qed
next
  case (Cons c a)
  then show ?case by simp
qed

lemma includes_str_iff: "includes_str s p \<longleftrightarrow> (\<exists>a b. s = a @ p @ b)"
proof
  show "includes_str s p \<Longrightarrow> \<exists>a b. s = a @ p @ b"
  proof (induction s)
    case Nil
    then show ?case by simp
  next
    case (Cons c cs)
    from Cons.prems have "startsWith (c # cs) p \<or> includes_str cs p" by simp
    then show ?case
    proof
      assume "startsWith (c # cs) p"
      then obtain b where "c # cs = p @ b" unfolding startsWith_iff ..
      then have "c # cs = [] @ p @ b" by simp
      then show ?thesis by blast
    next
      assume "includes_str cs p"
      then obtain a b where "cs = a @ p @ b" using Cons.IH by blast
      then have "c # cs = (c # a) @ p @ b" by simp
      then show ?thesis by blast
    qed
  qed
next
  assume "\<exists>a b. s = a @ p @ b"
  then show "includes_str s p" by (auto simp: includes_str_append)
qed

lemma keep_iff:
  "keep (to_entry d) \<longleftrightarrow>
     (\<exists>s. d_url d = Some s \<and> s \<noteq> []) \<and>
     (\<exists>u. d_download_url d = Some u \<and> (\<exists>q. u = q @ ''.md'') \<and>
          \<not> (\<exists>a b. u = a @ ''README.md'' @ b))"
  by (auto simp: keep_def to_entry_def truthy_def endsWith_iff includes_str_iff split: option.splits)

lemma parseEntry_fst: "fst (parseEntry env e p st) = fst (parseEntry env e p st')"
  by (simp add: parseEntry_def Let_def split: option.split sum.split)

lemma parseEntry_store: "store (snd (parseEntry env e p st)) = store st"
  by (simp add: parseEntry_def Let_def request_def split: option.split sum.split)

lemma entry_task_store:
  "store (snd (entry_task env p e st)) =
     (case fst (parseEntry env e p st) of
        Inr (Some d) \<Rightarrow> (store st)(doc_url d \<mapsto> d)
      | _ \<Rightarrow> store st)"
proof -
  obtain r st' where r: "parseEntry env e p st = (r, st')" by (cases "parseEntry env e p st")
  with parseEntry_store [of env e p st] have "store st' = store st" by simp
  with r show ?thesis
    by (simp add: entry_task_def split: sum.split option.split)
qed

lemma snd_run_entries_Cons:
  "snd (run_entries env p (e # es) st) = snd (run_entries env p es (snd (entry_task env p e st)))"
  by (simp add: split_beta)

lemma snd_run_entries_append:
  "snd (run_entries env p (es1 @ es2) st) =
   snd (run_entries env p es2 (snd (run_entries env p es1 st)))"
proof (induction es1 arbitrary: st)
  case Nil
  show ?case by simp
next
  case (Cons e es1)
  show ?case
    unfolding append_Cons snd_run_entries_Cons by (rule Cons.IH)
qed

lemma run_entries_keeps:
  assumes "\<And>e' d'. e' \<in> set es \<Longrightarrow> fst (parseEntry env e' p s0) = Inr (Some d') \<Longrightarrow> doc_url d' \<noteq> k"
  shows "store (snd (run_entries env p es st)) k = store st k"
  using assms
proof (induction es arbitrary: st)
  case Nil
  show ?case by simp
next
  case (Cons e es)
  have "store (snd (entry_task env p e st)) k = store st k"
  proof (cases "fst (parseEntry env e p st)")
    case (Inl a)
    then show ?thesis by (simp add: entry_task_store)
  next
    case (Inr r)
    show ?thesis
    proof (cases r)
      case None
      with Inr show ?thesis by (simp add: entry_task_store)
    next
      case (Some d)
      with Inr have "fst (parseEntry env e p s0) = Inr (Some d)"
        using parseEntry_fst [of env e p s0 st] by simp
      then have "doc_url d \<noteq> k" using Cons.prems [of e d] by simp
      with Inr Some show ?thesis by (simp add: entry_task_store)
    qed
  qed
  moreover have "store (snd (run_entries env p es (snd (entry_task env p e st)))) k =
                 store (snd (entry_task env p e st)) k"
    by (rule Cons.IH) (rule Cons.prems, simp_all)
  ultimately show ?case
    unfolding snd_run_entries_Cons by simp
qed

lemma dropped_task:
  assumes "new_URL env (selfUrl entry) = None \<or> new_URL env (downloadUrl entry) = None"
  shows "parseEntry env entry parser st = (Inr None, st)"
    and "entry_task env parser entry st = (Inr (), st)"
proof -
  show p: "parseEntry env entry parser st = (Inr None, st)"
    using assms by (auto simp: parseEntry_def split: option.split)
  show "entry_task env parser entry st = (Inr (), st)"
    by (simp add: entry_task_def p)
qed


section \<open>Claims on the Link Rewriter\<close>

text \<open>
  C2. The Link Rewriter maps \<^verbatim>\<open>[Intro](./intro.md#setup)\<close> to
  \<^verbatim>\<open>[Intro](/docs/intro.md#setup)\<close> and \<^verbatim>\<open>[Back](../index.md)\<close> to \<^verbatim>\<open>[Back](/docs/index.md)\<close>,
  and leaves \<^verbatim>\<open>[Ext](https://example.com/x)\<close> as it is.
\<close>

theorem link_rewriter_examples:
  "transformMarkdownLinks ''[Intro](./intro.md#setup)'' = ''[Intro](/docs/intro.md#setup)'' \<and>
   transformMarkdownLinks ''[Back](../index.md)'' = ''[Back](/docs/index.md)'' \<and>
   transformMarkdownLinks ''[Ext](https://example.com/x)'' = ''[Ext](https://example.com/x)''"
  by code_simp

text \<open>
  C3, as the claim states it, fails: the two prefixes are stripped one after the other,
  not one or else the other, so a path \<^verbatim>\<open>./../x.md\<close> loses both.
\<close>

theorem both_prefixes_stripped:
  "transformMarkdownLinks ''[A](./../x.md)'' = ''[A](/docs/x.md)'' \<and>
   transformMarkdownLinks ''[A](./../x.md)'' \<noteq> ''[A](/docs/../x.md)''"
  by code_simp

text \<open>
  C3, amended. For an inline link whose URL starts with \<^verbatim>\<open>./\<close> or \<^verbatim>\<open>../\<close> and holds at
  most one \<^verbatim>\<open>#\<close>, the URL is a path \<open>p\<close>, followed or not by \<^verbatim>\<open>#\<close> and a fragment \<open>f\<close>. The
  rewriter strips a leading \<^verbatim>\<open>./\<close> from the path if there is one, then a leading \<^verbatim>\<open>../\<close>
  from what is left if there is one, and rebuilds the URL as \<^verbatim>\<open>/docs/\<close>, the cleaned path,
  and \<^verbatim>\<open>#\<close> with the fragment when the fragment is not empty. The link text is kept and the
  scan goes on behind the link.
\<close>

theorem relative_link_rebuilt:
  assumes "t \<noteq> []" and "CHR '']'' \<notin> set t"
    and "CHR '')'' \<notin> set p" and "CHR ''#'' \<notin> set p"
    and "startsWith p ''./'' \<or> startsWith p ''../''"
    and "\<forall>f. fo = Some f \<longrightarrow> CHR '')'' \<notin> set f \<and> CHR ''#'' \<notin> set f"
  shows "transformMarkdownLinks
           (''['' @ t @ '']('' @ p @ (case fo of None \<Rightarrow> [] | Some f \<Rightarrow> ''#'' @ f) @ '')'' @ rest) =
         ''['' @ t @ '']('' @ ''/docs/'' @
           (let p1 = (if take 2 p = ''./'' then drop 2 p else p)
            in if take 3 p1 = ''../'' then drop 3 p1 else p1) @
           (case fo of None \<Rightarrow> [] | Some f \<Rightarrow> if f = [] then [] else ''#'' @ f) @
           '')'' @ transformMarkdownLinks rest"
proof -
  define u where "u = p @ (case fo of None \<Rightarrow> [] | Some f \<Rightarrow> ''#'' @ f)"
  from assms(5) have pne: "p \<noteq> []" by (auto simp: startsWith_def)
  then have une: "u \<noteq> []" by (simp add: u_def)
  have upar: "CHR '')'' \<notin> set u"
    using assms(3,6) by (auto simp: u_def split: option.splits)
  have rel: "startsWith u ''./'' \<or> startsWith u ''../''"
    using assms(5) unfolding u_def by (auto intro: startsWith_append)
  have nu: "newUrl u = ''/docs/'' @ cleanPath p @
      (case fo of None \<Rightarrow> [] | Some f \<Rightarrow> if f = [] then [] else ''#'' @ f)"
  proof (cases fo)
    case None
    with assms(4) show ?thesis by (simp add: u_def newUrl_nofrag)
  next
    case (Some f)
    with assms(4,6) newUrl_frag [of p f] show ?thesis by (simp add: u_def)
  qed
  have cp: "cleanPath p = (let p1 = (if take 2 p = ''./'' then drop 2 p else p)
            in if take 3 p1 = ''../'' then drop 3 p1 else p1)"
    by (simp only: cleanPath_def startsWith_dot startsWith_dotdot)
  have "transformMarkdownLinks (CHR ''['' # t @ '']('' @ u @ '')'' @ rest) =
        replacer (matched t u) t u @ transformMarkdownLinks rest"
    by (rule transform_link [OF assms(1,2) une upar])
  then have "transformMarkdownLinks (CHR ''['' # t @ '']('' @ u @ '')'' @ rest) =
        ''['' @ t @ '']('' @ newUrl u @ '')'' @ transformMarkdownLinks rest"
    using rel by (simp add: replacer_def)
  then show ?thesis
    unfolding nu cp unfolding u_def by simp
qed


theorem relative_link_rebuilt_witness:
  "transformMarkdownLinks ''[Up](./../guide/a.md#top) and more'' =
   ''[Up](/docs/guide/a.md#top) and more''"
proof -
  have "transformMarkdownLinks
          (''['' @ ''Up'' @ '']('' @ ''./../guide/a.md'' @
           (case Some ''top'' of None \<Rightarrow> [] | Some f \<Rightarrow> ''#'' @ f) @ '')'' @ '' and more'') =
        ''['' @ ''Up'' @ '']('' @ ''/docs/'' @
          (let p1 = (if take 2 ''./../guide/a.md'' = ''./'' then drop 2 ''./../guide/a.md''
                     else ''./../guide/a.md'')
           in if take 3 p1 = ''../'' then drop 3 p1 else p1) @
          (case Some ''top'' of None \<Rightarrow> [] | Some f \<Rightarrow> if f = [] then [] else ''#'' @ f) @
          '')'' @ transformMarkdownLinks '' and more''"
    by (rule relative_link_rebuilt) (simp_all add: startsWith_dot)
  moreover have "transformMarkdownLinks '' and more'' = '' and more''"
    by code_simp
  ultimately show ?thesis by simp
qed




text \<open>
  C5. For every input whose inline links all have a URL that starts neither with \<^verbatim>\<open>./\<close>
  nor with \<^verbatim>\<open>../\<close>, rewriting twice gives what rewriting once gives; and the output is a
  function of the input string alone.
\<close>

theorem rewriter_idempotent_on_untouched:
  "\<forall>(t, u) \<in> set (links s). \<not> (startsWith u ''./'' \<or> startsWith u ''../'') \<Longrightarrow>
   transformMarkdownLinks (transformMarkdownLinks s) = transformMarkdownLinks s \<and>
   (\<forall>s'. s' = s \<longrightarrow> transformMarkdownLinks s' = transformMarkdownLinks s)"
  by (simp add: transform_untouched)

theorem rewriter_idempotent_on_untouched_witness:
  "links ''see [Ext](https://example.com/x) and [I](/docs/intro.md#setup)'' =
     [(''Ext'', ''https://example.com/x''), (''I'', ''/docs/intro.md#setup'')] \<and>
   transformMarkdownLinks
     (transformMarkdownLinks ''see [Ext](https://example.com/x) and [I](/docs/intro.md#setup)'') =
   transformMarkdownLinks ''see [Ext](https://example.com/x) and [I](/docs/intro.md#setup)''"
proof -
  have l: "links ''see [Ext](https://example.com/x) and [I](/docs/intro.md#setup)'' =
     [(''Ext'', ''https://example.com/x''), (''I'', ''/docs/intro.md#setup'')]"
    by code_simp
  have h: "\<forall>(t, u) \<in> set (links ''see [Ext](https://example.com/x) and [I](/docs/intro.md#setup)'').
      \<not> (startsWith u ''./'' \<or> startsWith u ''../'')"
    unfolding l by (simp add: startsWith_def)
  from rewriter_idempotent_on_untouched [OF h]
  have e: "transformMarkdownLinks
     (transformMarkdownLinks ''see [Ext](https://example.com/x) and [I](/docs/intro.md#setup)'') =
   transformMarkdownLinks ''see [Ext](https://example.com/x) and [I](/docs/intro.md#setup)''"
    by (rule conjunct1)
  from l e show ?thesis by (rule conjI)
qed

text \<open>
  C10. For every inline link whose URL starts with \<^verbatim>\<open>./\<close> or \<^verbatim>\<open>../\<close> and ends with a \<^verbatim>\<open>#\<close>
  that has nothing behind it, the rewriter drops the \<^verbatim>\<open>#\<close>: the rebuilt URL is \<^verbatim>\<open>/docs/\<close>
  and the cleaned path, and holds no \<^verbatim>\<open>#\<close>.
\<close>

theorem empty_fragment_dropped:
  assumes "t \<noteq> []" and "CHR '']'' \<notin> set t"
    and "CHR '')'' \<notin> set p" and "CHR ''#'' \<notin> set p"
    and "startsWith p ''./'' \<or> startsWith p ''../''"
  shows "transformMarkdownLinks (''['' @ t @ '']('' @ p @ ''#'' @ '')'' @ rest) =
         ''['' @ t @ '']('' @ ''/docs/'' @ cleanPath p @ '')'' @ transformMarkdownLinks rest \<and>
         CHR ''#'' \<notin> set (''/docs/'' @ cleanPath p)"
proof -
  have u: "p @ ''#'' \<noteq> []" "CHR '')'' \<notin> set (p @ ''#'')"
    using assms(3) by simp_all
  have rel: "startsWith (p @ ''#'') ''./'' \<or> startsWith (p @ ''#'') ''../''"
    using assms(5) by (auto intro: startsWith_append)
  have nu: "newUrl (p @ ''#'') = ''/docs/'' @ cleanPath p"
    using newUrl_frag [OF assms(4), of "[]"] by simp
  have "transformMarkdownLinks (CHR ''['' # t @ '']('' @ (p @ ''#'') @ '')'' @ rest) =
        replacer (matched t (p @ ''#'')) t (p @ ''#'') @ transformMarkdownLinks rest"
    by (rule transform_link [OF assms(1,2) u])
  then have a: "transformMarkdownLinks (''['' @ t @ '']('' @ p @ ''#'' @ '')'' @ rest) =
         ''['' @ t @ '']('' @ ''/docs/'' @ cleanPath p @ '')'' @ transformMarkdownLinks rest"
    using rel nu by (simp add: replacer_def)
  have "set (cleanPath p) \<subseteq> set p"
    by (auto simp: cleanPath_def Let_def dest: in_set_dropD)
  then have b: "CHR ''#'' \<notin> set (''/docs/'' @ cleanPath p)"
    using assms(4) by auto
  from a b show ?thesis by (rule conjI)
qed

theorem empty_fragment_dropped_witness:
  "transformMarkdownLinks ''[A](./x.md#)'' = ''[A](/docs/x.md)''"
proof -
  have "transformMarkdownLinks (''['' @ ''A'' @ '']('' @ ''./x.md'' @ ''#'' @ '')'' @ []) =
         ''['' @ ''A'' @ '']('' @ ''/docs/'' @ cleanPath ''./x.md'' @ '')'' @ transformMarkdownLinks [] \<and>
         CHR ''#'' \<notin> set (''/docs/'' @ cleanPath ''./x.md'')"
    by (rule empty_fragment_dropped) (simp_all add: startsWith_dot)
  moreover have "cleanPath ''./x.md'' = ''x.md''"
    by code_simp
  ultimately show ?thesis by simp
qed

section \<open>Claims on the pipeline\<close>

text \<open>
  C1, as the claim states it, fails: the filter tests the two fields for truth, not for
  presence. A descriptor whose metadata address is the empty string has both fields
  present and a download address that ends in \<^verbatim>\<open>.md\<close> and holds no \<^verbatim>\<open>README.md\<close>, and
  does not survive.
\<close>

theorem empty_url_filtered:
  "d_url \<lparr>d_url = Some [], d_download_url = Some ''https://raw.example/docs/api.md''\<rparr> \<noteq> None \<and>
   d_download_url \<lparr>d_url = Some [], d_download_url = Some ''https://raw.example/docs/api.md''\<rparr> \<noteq> None \<and>
   endsWith ''https://raw.example/docs/api.md'' ''.md'' \<and>
   \<not> includes_str ''https://raw.example/docs/api.md'' ''README.md'' \<and>
   discover [\<lparr>d_url = Some [], d_download_url = Some ''https://raw.example/docs/api.md''\<rparr>] = []"
  by code_simp


text \<open>
  C1, amended. When the listing response is a success and its body is an array, the
  entries discovery returns are those of the descriptors, in listing order, whose
  metadata address is present and not the empty string and whose download address is
  present, ends in \<^verbatim>\<open>.md\<close> and does not contain \<^verbatim>\<open>README.md\<close>.
\<close>

theorem discovery_filter:
  assumes "parse_url env (listing_url options) = Some u"
    and "fetch_listing env u listing_headers = Some res"
    and "res_ok res" and "res_json res = Some (Listing json)"
  shows "fst (fetchDocsEntries env options st) =
         Inr (map to_entry
               (filter (\<lambda>d. (\<exists>s. d_url d = Some s \<and> s \<noteq> []) \<and>
                            (\<exists>u. d_download_url d = Some u \<and> (\<exists>q. u = q @ ''.md'') \<and>
                                 \<not> (\<exists>a b. u = a @ ''README.md'' @ b))) json))"
proof -
  have "discover json = map to_entry
               (filter (\<lambda>d. (\<exists>s. d_url d = Some s \<and> s \<noteq> []) \<and>
                            (\<exists>u. d_download_url d = Some u \<and> (\<exists>q. u = q @ ''.md'') \<and>
                                 \<not> (\<exists>a b. u = a @ ''README.md'' @ b))) json)"
    unfolding discover_def filter_map comp_def keep_iff ..
  with assms show ?thesis
    by (simp add: fetchDocsEntries_def)
qed


theorem discovery_filter_witness:
  "fst (fetchDocsEntries demo_env demo_options demo_state) =
   Inr [\<lparr>selfUrl = Some ''https://api.example/docs/api.md'',
         downloadUrl = Some ''https://raw.example/docs/api.md''\<rparr>]"
proof -
  have a: "parse_url demo_env (listing_url demo_options) = Some ''https://api.github.com/repos/ollama/ollama/contents/docs''"
    by code_simp
  have b: "fetch_listing demo_env ''https://api.github.com/repos/ollama/ollama/contents/docs'' listing_headers =
      Some \<lparr>res_ok = True, res_json = Some (Listing demo_listing), res_text = None\<rparr>"
    by (simp add: demo_env_def)
  have "fst (fetchDocsEntries demo_env demo_options demo_state) =
         Inr (map to_entry
               (filter (\<lambda>d. (\<exists>s. d_url d = Some s \<and> s \<noteq> []) \<and>
                            (\<exists>u. d_download_url d = Some u \<and> (\<exists>q. u = q @ ''.md'') \<and>
                                 \<not> (\<exists>a b. u = a @ ''README.md'' @ b))) demo_listing))"
    by (rule discovery_filter [OF a b]) simp_all
  also have "filter (\<lambda>d. (\<exists>s. d_url d = Some s \<and> s \<noteq> []) \<and>
                            (\<exists>u. d_download_url d = Some u \<and> (\<exists>q. u = q @ ''.md'') \<and>
                                 \<not> (\<exists>a b. u = a @ ''README.md'' @ b))) demo_listing =
             filter (\<lambda>d. keep (to_entry d)) demo_listing"
    by (simp only: keep_iff)
  also have "filter (\<lambda>d. keep (to_entry d)) demo_listing =
      [\<lparr>d_url = Some ''https://api.example/docs/api.md'',
        d_download_url = Some ''https://raw.example/docs/api.md''\<rparr>]"
    by code_simp
  finally show ?thesis by (simp add: to_entry_def)
qed

text \<open>
  C6. For every discovered entry of which the metadata address or the download address
  is no valid address, the fetcher returns no record and raises nothing, the state is as
  before (no request, no write to the store), and the run over the entries is the run
  over the other entries.
\<close>

theorem malformed_reference_dropped:
  assumes "new_URL env (selfUrl entry) = None \<or> new_URL env (downloadUrl entry) = None"
  shows "parseEntry env entry parser st = (Inr None, st) \<and>
         entry_task env parser entry st = (Inr (), st) \<and>
         run_entries env parser (es1 @ entry # es2) st = run_entries env parser (es1 @ es2) st"
proof -
  have t: "entry_task env parser entry st' = (Inr (), st')" for st'
    by (rule dropped_task(2) [OF assms])
  have "run_entries env parser (es1 @ entry # es2) st = run_entries env parser (es1 @ es2) st"
  proof (induction es1 arbitrary: st)
    case Nil
    show ?case by (simp add: t)
  next
    case (Cons e es1)
    show ?case by (simp add: Cons.IH)
  qed
  with dropped_task [OF assms, of parser st] show ?thesis by simp
qed


theorem malformed_reference_dropped_witness:
  "parseEntry demo_env (demo_entry ''docs/api.md'') schema_parser demo_state =
     (Inr None, demo_state) \<and>
   entry_task demo_env schema_parser (demo_entry ''docs/api.md'') demo_state =
     (Inr (), demo_state) \<and>
   run_entries demo_env schema_parser
     ([demo_entry ''https://api.example/docs/api.md''] @ demo_entry ''docs/api.md'' # [])
     demo_state =
   run_entries demo_env schema_parser
     ([demo_entry ''https://api.example/docs/api.md''] @ []) demo_state"
proof -
  have "new_URL demo_env (selfUrl (demo_entry ''docs/api.md'')) = None"
    by code_simp
  then have h: "new_URL demo_env (selfUrl (demo_entry ''docs/api.md'')) = None \<or>
                new_URL demo_env (downloadUrl (demo_entry ''docs/api.md'')) = None"
    by (rule disjI1)
  show ?thesis by (rule malformed_reference_dropped [OF h])
qed

text \<open>
  C7. If the listing response is not a success, or its body is not a JSON array (not
  JSON at all, or a value such as the object \<^verbatim>\<open>{"message":"Not Found"}\<close>), the run ends
  with an error; the store is as before and the listing request is the only request
  issued.
\<close>

theorem listing_failure_aborts:
  assumes "parse_url env (listing_url options) = Some u"
    and "fetch_listing env u listing_headers = Some res"
    and "\<not> res_ok res \<or> res_json res = None \<or> (\<exists>v. res_json res = Some (NotArray v))"
  shows "\<exists>e. load env parser options st = (Inl e, st\<lparr>requests := requests st @ [u]\<rparr>)"
  using assms by (auto simp: load_def fetchDocsEntries_def request_def Let_def)


theorem listing_failure_aborts_witness:
  "(\<exists>e. load demo_env_not_found schema_parser demo_options demo_state =
      (Inl e, demo_state\<lparr>requests := requests demo_state @
                 [''https://api.github.com/repos/ollama/ollama/contents/docs'']\<rparr>)) \<and>
   fst (load demo_env_not_found schema_parser demo_options demo_state) =
     Inl (Error ''Failed to fetch docs from GitHub'')"
proof -
  have a: "parse_url demo_env_not_found (listing_url demo_options) = Some ''https://api.github.com/repos/ollama/ollama/contents/docs''"
    by code_simp
  have b: "fetch_listing demo_env_not_found ''https://api.github.com/repos/ollama/ollama/contents/docs'' listing_headers =
      Some \<lparr>res_ok = True,
            res_json = Some (NotArray (JObj [(''message'', JStr ''Not Found'')])),
            res_text = None\<rparr>"
    by (simp add: demo_env_not_found_def)
  have "\<exists>e. load demo_env_not_found schema_parser demo_options demo_state =
      (Inl e, demo_state\<lparr>requests := requests demo_state @
                 [''https://api.github.com/repos/ollama/ollama/contents/docs'']\<rparr>)"
    by (rule listing_failure_aborts [OF a b]) simp
  moreover have "fst (load demo_env_not_found schema_parser demo_options demo_state) =
     Inl (Error ''Failed to fetch docs from GitHub'')"
    by code_simp
  ultimately show ?thesis by (rule conjI)
qed

text \<open>
  C8. A record the fetcher returns is written to the store under its \<^verbatim>\<open>url\<close> field. So
  after a run, the store holds at that key the record of the last entry, in the order of
  the writes, that gave a record with this \<^verbatim>\<open>url\<close>: two entries whose records have the
  same \<^verbatim>\<open>url\<close> leave one record there, the later one.
\<close>

theorem store_keyed_by_url:
  assumes "fst (parseEntry env e parser s0) = Inr (Some d)"
    and "\<And>e' d'. e' \<in> set es2 \<Longrightarrow> fst (parseEntry env e' parser s0) = Inr (Some d') \<Longrightarrow>
           doc_url d' \<noteq> doc_url d"
  shows "store (snd (entry_task env parser e st)) = (store st)(doc_url d \<mapsto> d) \<and>
         store (snd (run_entries env parser (es1 @ e # es2) st)) (doc_url d) = Some d"
proof -
  have f: "fst (parseEntry env e parser st') = Inr (Some d)" for st'
    using assms(1) parseEntry_fst [of env e parser st' s0] by simp
  have a: "store (snd (entry_task env parser e st')) = (store st')(doc_url d \<mapsto> d)" for st'
    by (simp add: entry_task_store f)
  define st1 where "st1 = snd (run_entries env parser es1 st)"
  have "snd (run_entries env parser (es1 @ e # es2) st) =
        snd (run_entries env parser es2 (snd (entry_task env parser e st1)))"
    unfolding st1_def snd_run_entries_append snd_run_entries_Cons ..
  moreover have "store (snd (run_entries env parser es2 (snd (entry_task env parser e st1)))) (doc_url d) =
        store (snd (entry_task env parser e st1)) (doc_url d)"
    by (rule run_entries_keeps) (rule assms(2))
  ultimately have "store (snd (run_entries env parser (es1 @ e # es2) st)) (doc_url d) = Some d"
    by (simp add: a)
  with a [of st] show ?thesis by (rule conjI)
qed


theorem store_keyed_by_url_witness:
  "fst (parseEntry demo_env (demo_entry ''https://api.example/docs/api.md'') schema_parser
          demo_state) = Inr (Some (demo_doc ''sha1'')) \<and>
   doc_url (demo_doc ''sha1'') = doc_url (demo_doc ''sha2'') \<and>
   store (snd (entry_task demo_env schema_parser
                 (demo_entry ''https://api.example/docs/api.md?ref=main'') demo_state)) =
     (store demo_state)(doc_url (demo_doc ''sha2'') \<mapsto> demo_doc ''sha2'') \<and>
   store (snd (run_entries demo_env schema_parser
                 ([demo_entry ''https://api.example/docs/api.md''] @
                  demo_entry ''https://api.example/docs/api.md?ref=main'' # [])
                 demo_state))
     (doc_url (demo_doc ''sha2'')) = Some (demo_doc ''sha2'')"
proof -
  have a: "fst (parseEntry demo_env (demo_entry ''https://api.example/docs/api.md'')
                  schema_parser demo_state) = Inr (Some (demo_doc ''sha1''))"
    by code_simp
  have b: "doc_url (demo_doc ''sha1'') = doc_url (demo_doc ''sha2'')"
    by (simp add: demo_doc_def)
  have h: "fst (parseEntry demo_env (demo_entry ''https://api.example/docs/api.md?ref=main'')
                  schema_parser demo_state) = Inr (Some (demo_doc ''sha2''))"
    by code_simp
  have c: "store (snd (entry_task demo_env schema_parser
                 (demo_entry ''https://api.example/docs/api.md?ref=main'') demo_state)) =
     (store demo_state)(doc_url (demo_doc ''sha2'') \<mapsto> demo_doc ''sha2'') \<and>
   store (snd (run_entries demo_env schema_parser
                 ([demo_entry ''https://api.example/docs/api.md''] @
                  demo_entry ''https://api.example/docs/api.md?ref=main'' # [])
                 demo_state))
     (doc_url (demo_doc ''sha2'')) = Some (demo_doc ''sha2'')"
    by (rule store_keyed_by_url [OF h]) simp
  from a b c show ?thesis by blast
qed

text \<open>
  C9. For every entry of which both fetches succeed, what the fetcher returns is what the
  parser makes of the candidate; the \<^verbatim>\<open>content\<close> field of the candidate is the Link
  Rewriter applied to the fetched text, and every other field of the candidate is the
  field of the metadata response.
\<close>

theorem candidate_frame:
  assumes "new_URL env (selfUrl entry) = Some selfU"
    and "new_URL env (downloadUrl entry) = Some downloadU"
    and "fetch env selfU = Some metadataRes" and "res_ok metadataRes"
    and "res_json metadataRes = Some (Some metadata)"
    and "fetch env downloadU = Some res" and "res_ok res"
    and "res_text res = Some text" and "text \<noteq> []"
  shows "fst (parseEntry env entry parser st) =
           map_sum id Some (parser (metadata ''url'') (candidate metadata text)) \<and>
         candidate metadata text ''content'' = Some (JStr (transformMarkdownLinks text)) \<and>
         (\<forall>k. k \<noteq> ''content'' \<longrightarrow> candidate metadata text k = metadata k)"
  using assms by (simp add: parseEntry_def candidate_def Let_def split: sum.split)


theorem candidate_frame_witness:
  "fst (parseEntry demo_env (demo_entry ''https://api.example/docs/api.md'') schema_parser
          demo_state) =
     map_sum id Some
       (schema_parser (demo_metadata ''sha1'' ''url'')
          (candidate (demo_metadata ''sha1'') ''See the [FAQ](./faq.md#top).'')) \<and>
   candidate (demo_metadata ''sha1'') ''See the [FAQ](./faq.md#top).'' ''content'' =
     Some (JStr ''See the [FAQ](/docs/faq.md#top).'') \<and>
   candidate (demo_metadata ''sha1'') ''See the [FAQ](./faq.md#top).'' ''sha'' =
     Some (JStr ''sha1'')"
proof -
  have s: "new_URL demo_env (selfUrl (demo_entry ''https://api.example/docs/api.md'')) =
      Some ''https://api.example/docs/api.md''"
    by code_simp
  have d: "new_URL demo_env (downloadUrl (demo_entry ''https://api.example/docs/api.md'')) =
      Some ''https://raw.example/docs/api.md''"
    by code_simp
  have m: "fetch demo_env ''https://api.example/docs/api.md'' =
      Some \<lparr>res_ok = True, res_json = Some (Some (demo_metadata ''sha1'')), res_text = None\<rparr>"
    by (simp add: demo_env_def)
  have r: "fetch demo_env ''https://raw.example/docs/api.md'' =
      Some \<lparr>res_ok = True, res_json = None,
            res_text = Some ''See the [FAQ](./faq.md#top).''\<rparr>"
    by (simp add: demo_env_def)
  have c: "fst (parseEntry demo_env (demo_entry ''https://api.example/docs/api.md'')
                  schema_parser demo_state) =
      map_sum id Some
        (schema_parser (demo_metadata ''sha1'' ''url'')
           (candidate (demo_metadata ''sha1'') ''See the [FAQ](./faq.md#top).'')) \<and>
    candidate (demo_metadata ''sha1'') ''See the [FAQ](./faq.md#top).'' ''content'' =
      Some (JStr (transformMarkdownLinks ''See the [FAQ](./faq.md#top).'')) \<and>
    (\<forall>k. k \<noteq> ''content'' \<longrightarrow>
       candidate (demo_metadata ''sha1'') ''See the [FAQ](./faq.md#top).'' k =
       demo_metadata ''sha1'' k)"
    by (rule candidate_frame [OF s d m _ _ r]) simp_all
  have t: "transformMarkdownLinks ''See the [FAQ](./faq.md#top).'' =
      ''See the [FAQ](/docs/faq.md#top).''"
    by code_simp
  have k: "demo_metadata ''sha1'' ''sha'' = Some (JStr ''sha1'')"
    by code_simp
  from c have "candidate (demo_metadata ''sha1'') ''See the [FAQ](./faq.md#top).'' ''sha'' =
       demo_metadata ''sha1'' ''sha''"
    by simp
  with c t k show ?thesis by simp
qed

end
